theory Spec2Isabelle
  imports Main
begin

section \<open>The comment scanner of remove\_java\_comments.py\<close>

text \<open>
  The theory embeds \<^verbatim>\<open>JavaCommentRemover.remove_comments\<close> and the in-memory part of
  \<^verbatim>\<open>JavaCommentRemover.process_file\<close>.

  A Python \<^verbatim>\<open>str\<close> is modelled as a \<^typ>\<open>string\<close>, one \<^typ>\<open>char\<close> per Python
  character: the alphabet is the code points U+0000 to U+00FF. The object's attributes
  are a record that every method takes and returns. The list \<^verbatim>\<open>result\<close> is a list of
  strings, because the source appends pieces of one, two and three characters to it and
  later slices it by elements.
\<close>

subsection \<open>Characters\<close>

abbreviation backslash :: char where "backslash \<equiv> CHR 0x5C"
abbreviation dquote :: char where "dquote \<equiv> CHR 0x22"
abbreviation squote :: char where "squote \<equiv> CHR 0x27"
abbreviation newline :: char where "newline \<equiv> CHR 0x0A"
abbreviation slash :: char where "slash \<equiv> CHR 0x2F"
abbreviation star :: char where "star \<equiv> CHR 0x2A"

text \<open>\<^verbatim>\<open>str.isspace\<close> on one character, for the code points below 256.\<close>

definition isspace :: "char \<Rightarrow> bool" where
  "isspace c = (of_char c \<in> {9, 10, 11, 12, 13, 28, 29, 30, 31, 32, 133, 160 :: nat})"

text \<open>\<^verbatim>\<open>str.lower\<close>: ASCII and Latin-1 capitals move up by 32; U+00D7 is not a letter.\<close>

definition lower_char :: "char \<Rightarrow> char" where
  "lower_char c =
     (let n = (of_char c :: nat)
      in if (65 \<le> n \<and> n \<le> 90) \<or> (192 \<le> n \<and> n \<le> 222 \<and> n \<noteq> 215)
         then char_of (n + 32) else c)"

definition lower :: "string \<Rightarrow> string" where
  "lower s = map lower_char s"

subsection \<open>Indexing, slicing and substring search\<close>

datatype error = IndexError

text \<open>\<^verbatim>\<open>s[k]\<close> with \<open>k \<ge> 0\<close> raises IndexError out of range.\<close>

definition getitem :: "string \<Rightarrow> nat \<Rightarrow> error + char" where
  "getitem s k = (if k < length s then Inr (s ! k) else Inl IndexError)"

text \<open>\<^verbatim>\<open>s[a:b]\<close> with \<open>0 \<le> a \<le> b\<close> never raises: the slice is cut at the end of \<open>s\<close>.\<close>

definition slice :: "string \<Rightarrow> nat \<Rightarrow> nat \<Rightarrow> string" where
  "slice s a b = take (b - a) (drop a s)"

text \<open>\<^verbatim>\<open>indicator in s\<close>: \<open>indicator\<close> occurs in \<open>s\<close> as a contiguous substring.\<close>

fun contains :: "string \<Rightarrow> string \<Rightarrow> bool" where
  "contains [] indicator = (indicator = [])"
| "contains (c # s) indicator =
     (take (length indicator) (c # s) = indicator \<or> contains s indicator)"

subsection \<open>The object state\<close>

record scanner =
  in_string :: bool
  in_char :: bool
  in_single_line_comment :: bool
  in_multi_line_comment :: bool
  string_delimiter :: "char option"
  in_text_block :: bool
  text_block_quotes :: int

text \<open>\<^verbatim>\<open>__init__\<close>\<close>

definition init :: scanner where
  "init = \<lparr>in_string = False, in_char = False, in_single_line_comment = False,
           in_multi_line_comment = False, string_delimiter = None,
           in_text_block = False, text_block_quotes = 0\<rparr>"

subsection \<open>One iteration of the loop of remove\_comments\<close>

text \<open>
  The iteration is cut where the source falls through: each part below is the code from
  one place to the end of the loop body, and returns the new \<open>i\<close>, the new attributes
  and the new \<open>result\<close>.
\<close>

text \<open>Start of a string literal, start of a character literal, regular character.\<close>

definition literal_start :: "char \<Rightarrow> nat \<Rightarrow> scanner \<Rightarrow> string list \<Rightarrow> nat \<times> scanner \<times> string list" where
  "literal_start char i self result =
     (if char \<in> set [dquote] then
        (i + 1, self\<lparr>in_string := True, string_delimiter := Some char\<rparr>, result @ [[char]])
      else if char = squote then
        (i + 1, self\<lparr>in_char := True\<rparr>, result @ [[char]])
      else
        (i + 1, self, result @ [[char]]))"

text \<open>The URL test on the last ten elements of \<open>result\<close>.\<close>

definition url_indicators :: "string list" where
  "url_indicators = [''http:'', ''https:'', ''ftp:'', ''file:'']"

definition preceding_context :: "string list \<Rightarrow> string" where
  "preceding_context result =
     (if length result \<ge> 10 then lower (concat (drop (length result - 10) result))
      else lower (concat result))"

definition is_likely_url :: "string list \<Rightarrow> bool" where
  "is_likely_url result =
     list_ex (\<lambda>indicator. contains (preceding_context result) indicator) url_indicators"

text \<open>Start of a comment; falls through to \<open>literal_start\<close>.\<close>

definition comment_start :: "string \<Rightarrow> char \<Rightarrow> nat \<Rightarrow> scanner \<Rightarrow> string list \<Rightarrow> error + nat \<times> scanner \<times> string list" where
  "comment_start java_content char i self result =
     (if char = slash \<and> i + 1 < length java_content then
        (case getitem java_content (i + 1) of
           Inl e \<Rightarrow> Inl e
         | Inr next_char \<Rightarrow>
             if next_char = slash then
               (if \<not> is_likely_url result then
                  Inr (i + 2, self\<lparr>in_single_line_comment := True\<rparr>, result)
                else Inr (literal_start char i self result))
             else if next_char = star then
               Inr (i + 2, self\<lparr>in_multi_line_comment := True\<rparr>, result)
             else Inr (literal_start char i self result))
      else Inr (literal_start char i self result))"

text \<open>Start of a text block; falls through to \<open>comment_start\<close>.\<close>

definition text_block_start :: "string \<Rightarrow> char \<Rightarrow> nat \<Rightarrow> scanner \<Rightarrow> string list \<Rightarrow> error + nat \<times> scanner \<times> string list" where
  "text_block_start java_content char i self result =
     (if char = dquote \<and> i + 2 < length java_content
         \<and> slice java_content i (i + 3) = [dquote, dquote, dquote] then
        (if i + 3 < length java_content then
           (case getitem java_content (i + 3) of
              Inl e \<Rightarrow> Inl e
            | Inr c3 \<Rightarrow>
                if isspace c3 \<or> c3 = newline then
                  Inr (i + 3, self\<lparr>in_text_block := True\<rparr>, result @ [[dquote, dquote, dquote]])
                else comment_start java_content char i self result)
         else comment_start java_content char i self result)
      else comment_start java_content char i self result)"

text \<open>Inside a comment; falls through to \<open>text_block_start\<close>.\<close>

definition in_comment :: "string \<Rightarrow> char \<Rightarrow> nat \<Rightarrow> scanner \<Rightarrow> string list \<Rightarrow> error + nat \<times> scanner \<times> string list" where
  "in_comment java_content char i self result =
     (if in_single_line_comment self \<and> char = newline then
        Inr (i + 1, self\<lparr>in_single_line_comment := False\<rparr>, result @ [[char]])
      else if in_multi_line_comment self then
        (if char = star \<and> i + 1 < length java_content then
           (case getitem java_content (i + 1) of
              Inl e \<Rightarrow> Inl e
            | Inr c1 \<Rightarrow>
                if c1 = slash then Inr (i + 2, self\<lparr>in_multi_line_comment := False\<rparr>, result)
                else if char = newline then Inr (i + 1, self, result @ [[char]])
                else Inr (i + 1, self, result))
         else if char = newline then Inr (i + 1, self, result @ [[char]])
         else Inr (i + 1, self, result))
      else if in_single_line_comment self then
        Inr (i + 1, self, result)
      else text_block_start java_content char i self result)"

text \<open>The whole body: escapes, text block, end of literals, then the parts above.\<close>

definition step :: "string \<Rightarrow> nat \<Rightarrow> scanner \<Rightarrow> string list \<Rightarrow> error + nat \<times> scanner \<times> string list" where
  "step java_content i self result =
     (case getitem java_content i of
        Inl e \<Rightarrow> Inl e
      | Inr char \<Rightarrow>
          if (in_string self \<or> in_char self \<or> in_text_block self) \<and> char = backslash then
            (if i + 1 < length java_content then
               (case getitem java_content (i + 1) of
                  Inl e \<Rightarrow> Inl e
                | Inr c1 \<Rightarrow> Inr (i + 2, self, result @ [[char], [c1]]))
             else Inr (i + 1, self, result @ [[char]]))
          else if in_text_block self then
            (if char = dquote \<and> i + 2 < length java_content
                \<and> slice java_content (i + 1) (i + 3) = [dquote, dquote] then
               Inr (i + 3, self\<lparr>in_text_block := False\<rparr>, result @ [[char]] @ [[dquote, dquote]])
             else Inr (i + 1, self, result @ [[char]]))
          else if in_string self \<and> Some char = string_delimiter self then
            Inr (i + 1, self\<lparr>in_string := False, string_delimiter := None\<rparr>, result @ [[char]])
          else if in_char self \<and> char = squote then
            Inr (i + 1, self\<lparr>in_char := False\<rparr>, result @ [[char]])
          else if in_string self \<or> in_char self then
            Inr (i + 1, self, result @ [[char]])
          else in_comment java_content char i self result)"

subsection \<open>The loop, remove\_comments and process\_file\<close>

lemma getitem_Inr: "k < length s \<Longrightarrow> getitem s k = Inr (s ! k)"
  by (simp add: getitem_def)

lemma literal_start_advance:
  "literal_start char i self result = (i', self', result') \<Longrightarrow> i' = i + 1"
  by (auto simp: literal_start_def split: if_splits)

lemma comment_start_advance:
  "comment_start java_content char i self result = Inr (i', self', result') \<Longrightarrow> i < i'"
  by (auto simp: comment_start_def getitem_def split: if_splits dest: literal_start_advance)

lemma text_block_start_advance:
  "text_block_start java_content char i self result = Inr (i', self', result') \<Longrightarrow> i < i'"
  by (auto simp: text_block_start_def getitem_def split: if_splits dest: comment_start_advance)

lemma in_comment_advance:
  "in_comment java_content char i self result = Inr (i', self', result') \<Longrightarrow> i < i'"
  by (auto simp: in_comment_def getitem_def split: if_splits dest: text_block_start_advance)

lemma step_advance:
  "step java_content i self result = Inr (i', self', result') \<Longrightarrow> i < i'"
  by (auto simp: step_def getitem_def split: if_splits dest: in_comment_advance)

text \<open>
  \<^verbatim>\<open>while i < length\<close>: the loop ends because every iteration moves \<open>i\<close> forward.
  It returns the attributes as the call leaves them, and \<open>result\<close>.
\<close>

function remove_loop :: "string \<Rightarrow> nat \<Rightarrow> scanner \<Rightarrow> string list \<Rightarrow> error + scanner \<times> string list" where
  "remove_loop java_content i self result =
     (if i < length java_content then
        (case step java_content i self result of
           Inl e \<Rightarrow> Inl e
         | Inr (i', self', result') \<Rightarrow> remove_loop java_content i' self' result')
      else Inr (self, result))"
  by pat_completeness auto
termination
  by (relation "measure (\<lambda>(java_content, i, self, result). length java_content - i)")
     (auto dest: step_advance)

text \<open>
  \<^verbatim>\<open>remove_comments\<close> starts from the attributes as they are (it assigns none of them
  before the loop) and returns \<^verbatim>\<open>''.join(result)\<close>.
\<close>

definition remove_comments :: "scanner \<Rightarrow> string \<Rightarrow> error + scanner \<times> string" where
  "remove_comments self java_content =
     (case remove_loop java_content 0 self [] of
        Inl e \<Rightarrow> Inl e
      | Inr (self', result) \<Rightarrow> Inr (self', concat result))"

text \<open>
  \<^verbatim>\<open>process_file\<close> between reading the file and writing the result:
  \<open>original_content\<close> is what was read, the string returned is what is written.
\<close>

definition process_file :: "scanner \<Rightarrow> string \<Rightarrow> error + scanner \<times> string" where
  "process_file self original_content =
     remove_comments
       (self\<lparr>in_string := False, in_char := False, in_single_line_comment := False,
             in_multi_line_comment := False, string_delimiter := None,
             in_text_block := False, text_block_quotes := 0\<rparr>)
       original_content"

subsection \<open>Notions the properties are stated with\<close>

text \<open>A comment is open: the scanner is in a line comment or in a block comment.\<close>

definition commented :: "scanner \<Rightarrow> bool" where
  "commented self = (in_single_line_comment self \<or> in_multi_line_comment self)"

text \<open>\<^verbatim>\<open>s.count('\n')\<close>: the number of newline characters of \<open>s\<close>.\<close>

definition newlines :: "string \<Rightarrow> nat" where
  "newlines s = length (filter (\<lambda>c. c = newline) s)"

text \<open>What one part does to \<open>i\<close> and \<open>result\<close>: it copies the characters it passes, or it
  drops them, and then none of them is a newline and a comment is open before or after.\<close>

definition effect :: "string \<Rightarrow> nat \<Rightarrow> scanner \<Rightarrow> string list \<Rightarrow> nat \<Rightarrow> scanner \<Rightarrow> string list \<Rightarrow> bool" where
  "effect java_content i self result i' self' result' =
     (i < i' \<and> i' \<le> length java_content \<and>
        (concat result' = concat result @ slice java_content i i' \<or>
         concat result' = concat result \<and> newline \<notin> set (slice java_content i i')
           \<and> (commented self \<or> commented self')))"

text \<open>Code mode: no flag is set.\<close>

definition code_mode :: "scanner \<Rightarrow> bool" where
  "code_mode self = (\<not> in_string self \<and> \<not> in_char self \<and> \<not> in_text_block self
      \<and> \<not> in_single_line_comment self \<and> \<not> in_multi_line_comment self)"

text \<open>The first \<open>n\<close> iterations of the loop, with the \<open>i\<close> they reach.\<close>

fun steps :: "nat \<Rightarrow> string \<Rightarrow> nat \<Rightarrow> scanner \<Rightarrow> string list \<Rightarrow> error + nat \<times> scanner \<times> string list" where
  "steps 0 java_content i self result = Inr (i, self, result)"
| "steps (Suc n) java_content i self result =
     (if i < length java_content then
        (case step java_content i self result of
           Inl e \<Rightarrow> Inl e
         | Inr (i', self', result') \<Rightarrow> steps n java_content i' self' result')
      else Inr (i, self, result))"

text \<open>
  The URL test as the specification words it, on the last ten characters of the output
  emitted so far; \<open>is_likely_url\<close> above is the test the source makes.
\<close>

definition last_characters :: "nat \<Rightarrow> string \<Rightarrow> string" where
  "last_characters n out = drop (length out - n) out"

definition url_in_last_10_characters :: "string \<Rightarrow> bool" where
  "url_in_last_10_characters out =
     list_ex (\<lambda>indicator. contains (lower (last_characters 10 out)) indicator) url_indicators"

text \<open>
  The regions of a text, read from left to right: code, the inside of a string literal,
  of a character literal, of a text block.
\<close>

datatype region = InCode | InString | InChar | InTextBlock

text \<open>\<open>s\<close> starts with \<open>p\<close>; \<open>s\<close> has a whitespace character at position \<open>k\<close>.\<close>

definition prefix_is :: "string \<Rightarrow> string \<Rightarrow> bool" where
  "prefix_is p s = (take (length p) s = p)"

definition space_at :: "nat \<Rightarrow> string \<Rightarrow> bool" where
  "space_at k s = (k < length s \<and> isspace (s ! k))"

text \<open>
  A text read from region \<open>r\<close> has a comment: \<^verbatim>\<open>//\<close> or \<^verbatim>\<open>/*\<close> occurs in it outside
  every string literal, character literal and text block. This is a property of the text
  alone. A double quote in code opens a string literal, unless it is the first of three
  followed by a whitespace character, which open a text block; a single quote opens a
  character literal; a backslash inside a literal or a text block takes the next
  character with it; the delimiter closes, three double quotes for a text block.
\<close>

fun has_comment :: "region \<Rightarrow> string \<Rightarrow> bool" where
  "has_comment r [] = False"
| "has_comment InCode (c # s) =
     (if c = slash \<and> (prefix_is [slash] s \<or> prefix_is [star] s) then True
      else if c = dquote \<and> prefix_is [dquote, dquote] s \<and> space_at 2 s then
        has_comment InTextBlock (drop 2 s)
      else if c = dquote then has_comment InString s
      else if c = squote then has_comment InChar s
      else has_comment InCode s)"
| "has_comment InString (c # s) =
     (if c = backslash then has_comment InString (drop 1 s)
      else if c = dquote then has_comment InCode s
      else has_comment InString s)"
| "has_comment InChar (c # s) =
     (if c = backslash then has_comment InChar (drop 1 s)
      else if c = squote then has_comment InCode s
      else has_comment InChar s)"
| "has_comment InTextBlock (c # s) =
     (if c = backslash then has_comment InTextBlock (drop 1 s)
      else if c = dquote \<and> prefix_is [dquote, dquote] s then has_comment InCode (drop 2 s)
      else has_comment InTextBlock s)"

text \<open>An input contains no comments.\<close>

definition no_comments :: "string \<Rightarrow> bool" where
  "no_comments x = (\<not> has_comment InCode x)"



text \<open>The states of the scanner that go with a region, no comment being open.\<close>

definition in_region :: "region \<Rightarrow> scanner \<Rightarrow> bool" where
  "in_region r self =
     (\<not> in_single_line_comment self \<and> \<not> in_multi_line_comment self \<and>
      (case r of
         InCode \<Rightarrow> \<not> in_string self \<and> \<not> in_char self \<and> \<not> in_text_block self
       | InString \<Rightarrow> in_string self \<and> string_delimiter self = Some dquote
                      \<and> \<not> in_char self \<and> \<not> in_text_block self
       | InChar \<Rightarrow> in_char self \<and> \<not> in_string self \<and> \<not> in_text_block self
       | InTextBlock \<Rightarrow> in_text_block self \<and> \<not> in_string self \<and> \<not> in_char self))"


text \<open>
  What is open in the state is not closed by the input from \<open>i\<close> on: a text block with
  no three double quotes to come, a string literal with no delimiter to come, a character
  literal with no single quote to come, a line comment with no newline to come, a block
  comment with no \<^verbatim>\<open>*/\<close> to come. In code mode nothing is open.
\<close>

definition unterminated :: "string \<Rightarrow> nat \<Rightarrow> scanner \<Rightarrow> bool" where
  "unterminated java_content i self =
     (let rest = drop i java_content
      in if in_text_block self then \<not> contains rest [dquote, dquote, dquote]
         else if in_string self then
           \<not> in_char self \<and> (case string_delimiter self of None \<Rightarrow> True | Some d \<Rightarrow> d \<notin> set rest)
         else if in_char self then squote \<notin> set rest
         else if in_single_line_comment self then
           \<not> in_multi_line_comment self \<and> newline \<notin> set rest
         else in_multi_line_comment self \<and> \<not> contains rest [star, slash])"

subsection \<open>Inputs of the examples\<close>



text \<open>\<^verbatim>\<open>String s = "a \" b // c";\<close>\<close>

definition escaped_quote_example :: string where
  "escaped_quote_example =
     ''String s = '' @ [dquote] @ ''a '' @ [backslash, dquote] @ '' b // c'' @ [dquote] @ '';''"



text \<open>The string literal \<^verbatim>\<open>"http://*c*/* x */ y"\<close>.\<close>

definition literal_with_delimiters_example :: string where
  "literal_with_delimiters_example = [dquote] @ ''http://*c*/* x */ y'' @ [dquote]"

text \<open>
  \<^verbatim>\<open>http:""" """//x\<close>, and the elements of \<open>result\<close> when the scanner reaches the
  two slashes: the opening quotes of the text block are one element, the closing ones two.
\<close>

definition scheme_text_block_example :: string where
  "scheme_text_block_example =
     ''http:'' @ [dquote, dquote, dquote] @ '' '' @ [dquote, dquote, dquote] @ ''//x''"

definition scheme_text_block_pieces :: "string list" where
  "scheme_text_block_pieces =
     [''h'', ''t'', ''t'', ''p'', '':'', [dquote, dquote, dquote], '' '', [dquote], [dquote, dquote]]"

text \<open>Three double quotes and nothing after them.\<close>

definition triple_quote_example :: string where
  "triple_quote_example = [dquote, dquote, dquote]"

text \<open>The state inside a string literal that a fresh scanner has opened.\<close>

definition in_string_state :: scanner where
  "in_string_state = init\<lparr>in_string := True, string_delimiter := Some dquote\<rparr>"

section \<open>Lemmas\<close>

subsection \<open>Slices\<close>

lemma slice1: "i < length s \<Longrightarrow> slice s i (Suc i) = [s ! i]"
  by (simp add: slice_def take_Suc_conv_app_nth)

lemma drop2: "Suc i < length s \<Longrightarrow> drop i s = s ! i # s ! Suc i # drop (Suc (Suc i)) s"
  by (simp add: Cons_nth_drop_Suc Suc_lessD)

lemma drop3:
  "Suc (Suc i) < length s \<Longrightarrow>
   drop i s = s ! i # s ! Suc i # s ! Suc (Suc i) # drop (Suc (Suc (Suc i))) s"
  by (simp add: Cons_nth_drop_Suc Suc_lessD)

lemma slice2: "Suc i < length s \<Longrightarrow> slice s i (Suc (Suc i)) = [s ! i, s ! Suc i]"
proof -
  assume "Suc i < length s"
  then have "drop i s = s ! i # s ! Suc i # drop (Suc (Suc i)) s" by (rule drop2)
  moreover have "Suc (Suc i) - i = Suc (Suc 0)" by simp
  ultimately show ?thesis by (simp add: slice_def)
qed

lemma slice3:
  "Suc (Suc i) < length s \<Longrightarrow>
   slice s i (Suc (Suc (Suc i))) = [s ! i, s ! Suc i, s ! Suc (Suc i)]"
proof -
  assume "Suc (Suc i) < length s"
  then have "drop i s = s ! i # s ! Suc i # s ! Suc (Suc i) # drop (Suc (Suc (Suc i))) s"
    by (rule drop3)
  moreover have "Suc (Suc (Suc i)) - i = Suc (Suc (Suc 0))" by simp
  ultimately show ?thesis by (simp add: slice_def)
qed

lemmas slice_tail2 = slice2 [of "Suc i" for i]

lemma add_3_Suc: "i + 3 = Suc (Suc (Suc i))"
  by simp

lemmas Suc_forms = add_3_Suc

lemma slice_drop: "i \<le> i' \<Longrightarrow> drop i s = slice s i i' @ drop i' s"
proof -
  assume "i \<le> i'"
  then have "drop i' s = drop (i' - i) (drop i s)" by simp
  then show ?thesis unfolding slice_def by (metis append_take_drop_id)
qed

subsection \<open>The effect of one iteration\<close>

lemma literal_start_effect:
  "literal_start char i self result = (i', self', result') \<Longrightarrow>
   i < length java_content \<Longrightarrow> java_content ! i = char \<Longrightarrow>
   effect java_content i self result i' self' result'"
  by (auto simp: Suc_forms effect_def literal_start_def slice1 split: if_splits)

lemma comment_start_effect:
  "comment_start java_content char i self result = Inr (i', self', result') \<Longrightarrow>
   i < length java_content \<Longrightarrow> java_content ! i = char \<Longrightarrow>
   effect java_content i self result i' self' result'"
  unfolding comment_start_def getitem_def
  by (auto split: if_splits simp: Suc_forms intro: literal_start_effect) 
     (auto simp: Suc_forms effect_def slice2 commented_def)

lemma text_block_start_effect:
  "text_block_start java_content char i self result = Inr (i', self', result') \<Longrightarrow>
   i < length java_content \<Longrightarrow> java_content ! i = char \<Longrightarrow>
   effect java_content i self result i' self' result'"
  unfolding text_block_start_def getitem_def
  by (auto split: if_splits simp: Suc_forms intro: comment_start_effect) 
     (auto simp: Suc_forms effect_def slice3 commented_def)

lemma in_comment_effect:
  "in_comment java_content char i self result = Inr (i', self', result') \<Longrightarrow>
   i < length java_content \<Longrightarrow> java_content ! i = char \<Longrightarrow>
   effect java_content i self result i' self' result'"
  unfolding in_comment_def getitem_def
  by (auto split: if_splits simp: Suc_forms intro: text_block_start_effect) 
     (auto simp: Suc_forms effect_def slice1 slice2 commented_def)

lemma step_effect:
  "step java_content i self result = Inr (i', self', result') \<Longrightarrow>
   i < length java_content \<Longrightarrow>
   effect java_content i self result i' self' result'"
  unfolding step_def getitem_def
  by (auto split: if_splits simp: Suc_forms intro: in_comment_effect) 
     (auto simp: Suc_forms effect_def slice1 slice2 slice3 slice_tail2 commented_def)


subsection \<open>No iteration fails\<close>

lemma comment_start_ok:
  "i < length java_content \<Longrightarrow> \<not> isl (comment_start java_content char i self result)"
  by (simp add: comment_start_def getitem_def)

lemma text_block_start_ok:
  "i < length java_content \<Longrightarrow> \<not> isl (text_block_start java_content char i self result)"
  by (simp add: text_block_start_def getitem_def comment_start_ok)

lemma in_comment_ok:
  "i < length java_content \<Longrightarrow> \<not> isl (in_comment java_content char i self result)"
  by (simp add: in_comment_def getitem_def text_block_start_ok)

lemma step_not_isl:
  "i < length java_content \<Longrightarrow> \<not> isl (step java_content i self result)"
  by (simp add: step_def getitem_def in_comment_ok)

lemma step_ok:
  "i < length java_content \<Longrightarrow> \<exists>r. step java_content i self result = Inr r"
  using step_not_isl [of i java_content self result]
  by (cases "step java_content i self result") auto

lemma remove_loop_ok: "\<exists>r. remove_loop java_content i self result = Inr r"
proof (induction java_content i self result rule: remove_loop.induct)
  case (1 java_content i self result)
  show ?case
  proof (cases "i < length java_content")
    case False
    then show ?thesis by simp
  next
    case True
    then obtain i' self' result' where s: "step java_content i self result = Inr (i', self', result')"
      using step_ok by (metis prod_cases3)
    from "1.IH" [OF True s refl refl] s True show ?thesis by simp
  qed
qed

subsection \<open>Newlines through the loop\<close>

lemma newlines_append: "newlines (s @ t) = newlines s + newlines t"
  by (simp add: newlines_def)

lemma newlines_none: "newline \<notin> set s \<Longrightarrow> newlines s = 0"
  by (induction s) (auto simp: newlines_def)

lemma effect_newlines:
  assumes "effect java_content i self result i' self' result'"
  shows "newlines (concat result') + newlines (drop i' java_content)
           = newlines (concat result) + newlines (drop i java_content)"
proof -
  from assms have "i \<le> i'" by (simp add: effect_def)
  then have d: "drop i java_content = slice java_content i i' @ drop i' java_content"
    by (rule slice_drop)
  from assms show ?thesis
    unfolding effect_def by (auto simp: d newlines_append newlines_none)
qed

lemma remove_loop_newlines:
  "remove_loop java_content i self result = Inr (self', result') \<Longrightarrow>
   newlines (concat result') = newlines (concat result) + newlines (drop i java_content)"
proof (induction java_content i self result rule: remove_loop.induct)
  case (1 java_content i self result)
  show ?case
  proof (cases "i < length java_content")
    case False
    with "1.prems" show ?thesis by (simp add: newlines_def)
  next
    case True
    then obtain i1 self1 result1 where s: "step java_content i self result = Inr (i1, self1, result1)"
      using step_ok by (metis prod_cases3)
    from "1.prems" True s have "remove_loop java_content i1 self1 result1 = Inr (self', result')"
      by simp
    from "1.IH" [OF True s refl refl this]
    have "newlines (concat result') = newlines (concat result1) + newlines (drop i1 java_content)" .
    with effect_newlines [OF step_effect [OF s True]] show ?thesis by simp
  qed
qed

subsection \<open>The output only grows\<close>


subsection \<open>Iterations in particular modes\<close>


lemma step_escape:
  assumes "in_string self \<or> in_char self \<or> in_text_block self"
    and "i + 1 < length java_content" and "java_content ! i = backslash"
  shows "step java_content i self result
           = Inr (i + 2, self, result @ [[backslash], [java_content ! (i + 1)]])"
  using assms by (simp add: step_def getitem_def)

lemma step_final_backslash:
  assumes "in_string self \<or> in_char self \<or> in_text_block self"
    and "i + 1 = length java_content" and "java_content ! i = backslash"
  shows "step java_content i self result = Inr (i + 1, self, result @ [[backslash]])"
  using assms by (simp add: step_def getitem_def)

lemma loop_final_backslash:
  assumes "in_string self \<or> in_char self \<or> in_text_block self"
    and "i + 1 = length java_content" and "java_content ! i = backslash"
  shows "remove_loop java_content i self result = Inr (self, result @ [[backslash]])"
proof -
  have "i < length java_content" using assms(2) by simp
  then show ?thesis using step_final_backslash [OF assms, of result] assms(2) by simp
qed

lemma step_double_slash:
  assumes "code_mode self" "i + 1 < length java_content"
    "java_content ! i = slash" "java_content ! (i + 1) = slash"
  shows "step java_content i self result =
           (if is_likely_url result then Inr (i + 1, self, result @ [[slash]])
            else Inr (i + 2, self\<lparr>in_single_line_comment := True\<rparr>, result))"
  using assms
  by (simp add: step_def in_comment_def text_block_start_def comment_start_def
      literal_start_def getitem_def code_mode_def)

lemma step_triple_quote:
  assumes "code_mode self" "i + 2 < length java_content"
    "java_content ! i = dquote" "java_content ! (i + 1) = dquote" "java_content ! (i + 2) = dquote"
  shows "step java_content i self result =
           (if i + 3 < length java_content \<and> isspace (java_content ! (i + 3)) then
              Inr (i + 3, self\<lparr>in_text_block := True\<rparr>, result @ [[dquote, dquote, dquote]])
            else Inr (i + 1, self\<lparr>in_string := True, string_delimiter := Some dquote\<rparr>,
                      result @ [[dquote]]))"
proof -
  have "slice java_content i (i + 3) = [dquote, dquote, dquote]"
    using assms slice3 [of i java_content] by (simp add: Suc_forms)
  moreover have "isspace newline" by (simp add: isspace_def)
  ultimately show ?thesis using assms
    by (auto simp add: step_def in_comment_def text_block_start_def comment_start_def
      literal_start_def getitem_def code_mode_def)
qed

subsection \<open>The URL window when every element is one character\<close>

lemma concat_singletons:
  "\<forall>x \<in> set xs. length x = 1 \<Longrightarrow> length (concat xs) = length xs"
  by (induction xs) auto

lemma concat_drop_singletons:
  "\<forall>x \<in> set xs. length x = 1 \<Longrightarrow> concat (drop n xs) = drop n (concat xs)"
proof (induction xs arbitrary: n)
  case Nil
  then show ?case by simp
next
  case (Cons x xs)
  then obtain c where x: "x = [c]" by (cases x) auto
  show ?case
  proof (cases n)
    case 0
    then show ?thesis by simp
  next
    case (Suc m)
    with Cons x show ?thesis by simp
  qed
qed

lemma window_of_characters:
  assumes "\<forall>x \<in> set result. length x = 1"
  shows "is_likely_url result = url_in_last_10_characters (concat result)"
proof -
  have "preceding_context result = lower (last_characters 10 (concat result))"
    using assms
    by (simp add: preceding_context_def last_characters_def concat_singletons concat_drop_singletons)
  then show ?thesis by (simp add: is_likely_url_def url_in_last_10_characters_def)
qed

subsection \<open>The reset of process\_file\<close>

lemma reset_is_init:
  "(self :: scanner)\<lparr>in_string := False, in_char := False, in_single_line_comment := False,
             in_multi_line_comment := False, string_delimiter := None,
             in_text_block := False, text_block_quotes := 0\<rparr> = init"
  by (simp add: init_def)

subsection \<open>Texts without comments\<close>

lemma prefix_is_drop1: "prefix_is [x] (drop j c) = (j < length c \<and> c ! j = x)"
proof (cases "j < length c")
  case True
  then have "drop j c = c ! j # drop (Suc j) c" by (simp add: Cons_nth_drop_Suc)
  with True show ?thesis by (simp add: prefix_is_def)
next
  case False
  then show ?thesis by (simp add: prefix_is_def)
qed

lemma prefix_is_drop2:
  "prefix_is [x, y] (drop j c) = (Suc j < length c \<and> c ! j = x \<and> c ! Suc j = y)"
proof (cases "Suc j < length c")
  case True
  from drop2 [OF this] True show ?thesis by (simp add: prefix_is_def)
next
  case False
  have "take 2 (drop j c) \<noteq> [x, y]"
  proof
    assume "take 2 (drop j c) = [x, y]"
    then have "length (take 2 (drop j c)) = 2" by simp
    with False show False by simp
  qed
  with False show ?thesis by (simp add: prefix_is_def)
qed

lemma space_at_drop: "space_at k (drop j c) = (j + k < length c \<and> isspace (c ! (j + k)))"
  by (auto simp: space_at_def)

lemma step_simulates:
  assumes "in_region r self" and "i < length java_content"
    and "\<not> has_comment r (drop i java_content)"
    and "step java_content i self result = Inr (i1, self1, result1)"
  shows "\<exists>r1. in_region r1 self1 \<and> \<not> has_comment r1 (drop i1 java_content)"
proof -
  from assms(2) have d: "drop i java_content = java_content ! i # drop (Suc i) java_content"
    by (simp add: Cons_nth_drop_Suc)
  note bridge = prefix_is_drop1 prefix_is_drop2 space_at_drop
  note defs = step_def in_comment_def text_block_start_def comment_start_def literal_start_def
    getitem_def
  show ?thesis
  proof (cases r)
    case InCode
    with assms(1) have c: "\<not> in_string self" "\<not> in_char self" "\<not> in_text_block self"
      "\<not> in_single_line_comment self" "\<not> in_multi_line_comment self"
      by (simp_all add: in_region_def)
    from assms(3) InCode have h: "\<not> has_comment InCode (java_content ! i # drop (Suc i) java_content)"
      by (simp add: d)
    consider (tb) "java_content ! i = dquote" "Suc (Suc i) < length java_content"
        "java_content ! Suc i = dquote" "java_content ! Suc (Suc i) = dquote"
        "i + 3 < length java_content" "isspace (java_content ! (i + 3))"
      | (str) "java_content ! i = dquote"
        "\<not> (Suc (Suc i) < length java_content
            \<and> java_content ! Suc i = dquote \<and> java_content ! Suc (Suc i) = dquote
            \<and> i + 3 < length java_content \<and> isspace (java_content ! (i + 3)))"
      | (chr) "java_content ! i = squote"
      | (other) "java_content ! i \<noteq> dquote" "java_content ! i \<noteq> squote"
      by blast
    then show ?thesis
    proof cases
      case tb
      then have sl: "slice java_content i (i + 3) = [dquote, dquote, dquote]"
        using slice3 [of i java_content] by (simp add: Suc_forms)
      from tb sl c assms(2,4) have s: "i1 = i + 3" "self1 = self\<lparr>in_text_block := True\<rparr>"
        by (auto simp: defs)
      from h tb have "\<not> has_comment InTextBlock (drop (i + 3) java_content)"
        by (simp add: bridge Suc_forms)
      moreover from c s have "in_region InTextBlock self1" by (simp add: in_region_def)
      ultimately show ?thesis using s by blast
    next
      case str
      have sl: "slice java_content i (i + 3) = [dquote, dquote, dquote] \<Longrightarrow>
          Suc (Suc i) < length java_content \<Longrightarrow>
          java_content ! Suc i = dquote \<and> java_content ! Suc (Suc i) = dquote"
        using slice3 [of i java_content] by (simp add: Suc_forms)
      from str sl c assms(2,4) have s: "i1 = i + 1"
        "self1 = self\<lparr>in_string := True, string_delimiter := Some dquote\<rparr>"
        by (auto simp: defs isspace_def split: if_splits)
      from h str have "\<not> has_comment InString (drop (i + 1) java_content)"
        by (auto simp add: bridge Suc_forms split: if_splits)
      moreover from c s have "in_region InString self1" by (simp add: in_region_def)
      ultimately show ?thesis using s by blast
    next
      case chr
      from chr c assms(2,4) have s: "i1 = i + 1" "self1 = self\<lparr>in_char := True\<rparr>"
        by (auto simp: defs split: if_splits)
      from h chr have "\<not> has_comment InChar (drop (i + 1) java_content)"
        by (auto simp add: bridge split: if_splits)
      moreover from c s have "in_region InChar self1" by (simp add: in_region_def)
      ultimately show ?thesis using s by blast
    next
      case other
      from h other have n: "\<not> (java_content ! i = slash \<and> Suc i < length java_content
          \<and> (java_content ! Suc i = slash \<or> java_content ! Suc i = star))"
        and h1: "\<not> has_comment InCode (drop (i + 1) java_content)"
        by (auto simp add: bridge split: if_splits)
      from other n c assms(2,4) have s: "i1 = i + 1" "self1 = self"
        by (auto simp: defs split: if_splits)
      from c s have "in_region InCode self1" by (simp add: in_region_def)
      with h1 s show ?thesis by blast
    qed
  next
    case InString
    with assms(1) have c: "in_string self" "string_delimiter self = Some dquote"
      "\<not> in_char self" "\<not> in_text_block self"
      "\<not> in_single_line_comment self" "\<not> in_multi_line_comment self"
      by (simp_all add: in_region_def)
    from assms(3) InString have h: "\<not> has_comment InString (java_content ! i # drop (Suc i) java_content)"
      by (simp add: d)
    consider (esc) "java_content ! i = backslash" | (fin) "java_content ! i = dquote"
      | (other) "java_content ! i \<noteq> backslash" "java_content ! i \<noteq> dquote"
      by blast
    then show ?thesis
    proof cases
      case esc
      with h have h1: "\<not> has_comment InString (drop (i + 2) java_content)" by simp
      show ?thesis
      proof (cases "i + 1 < length java_content")
        case True
        with esc c assms(2,4) have "i1 = i + 2" "self1 = self" by (auto simp: defs)
        with h1 assms(1) InString show ?thesis by blast
      next
        case False
        with esc c assms(2,4) have "i1 = i + 1" "self1 = self" by (auto simp: defs)
        moreover from False have "drop (i + 1) java_content = []" by simp
        ultimately show ?thesis using assms(1) InString by (intro exI [of _ InString]) simp
      qed
    next
      case fin
      with c assms(2,4) have s: "i1 = i + 1"
        "self1 = self\<lparr>in_string := False, string_delimiter := None\<rparr>"
        by (auto simp: defs)
      from h fin have "\<not> has_comment InCode (drop (i + 1) java_content)" by simp
      moreover from c s have "in_region InCode self1" by (simp add: in_region_def)
      ultimately show ?thesis using s by blast
    next
      case other
      with c assms(2,4) have s: "i1 = i + 1" "self1 = self" by (auto simp: defs)
      from h other have "\<not> has_comment InString (drop (i + 1) java_content)" by simp
      with s assms(1) InString show ?thesis by blast
    qed
  next
    case InChar
    with assms(1) have c: "in_char self" "\<not> in_string self" "\<not> in_text_block self"
      "\<not> in_single_line_comment self" "\<not> in_multi_line_comment self"
      by (simp_all add: in_region_def)
    from assms(3) InChar have h: "\<not> has_comment InChar (java_content ! i # drop (Suc i) java_content)"
      by (simp add: d)
    consider (esc) "java_content ! i = backslash" | (fin) "java_content ! i = squote"
      | (other) "java_content ! i \<noteq> backslash" "java_content ! i \<noteq> squote"
      by blast
    then show ?thesis
    proof cases
      case esc
      with h have h1: "\<not> has_comment InChar (drop (i + 2) java_content)" by simp
      show ?thesis
      proof (cases "i + 1 < length java_content")
        case True
        with esc c assms(2,4) have "i1 = i + 2" "self1 = self" by (auto simp: defs)
        with h1 assms(1) InChar show ?thesis by blast
      next
        case False
        with esc c assms(2,4) have "i1 = i + 1" "self1 = self" by (auto simp: defs)
        moreover from False have "drop (i + 1) java_content = []" by simp
        ultimately show ?thesis using assms(1) InChar by (intro exI [of _ InChar]) simp
      qed
    next
      case fin
      with c assms(2,4) have s: "i1 = i + 1" "self1 = self\<lparr>in_char := False\<rparr>"
        by (auto simp: defs)
      from h fin have "\<not> has_comment InCode (drop (i + 1) java_content)" by simp
      moreover from c s have "in_region InCode self1" by (simp add: in_region_def)
      ultimately show ?thesis using s by blast
    next
      case other
      with c assms(2,4) have s: "i1 = i + 1" "self1 = self" by (auto simp: defs)
      from h other have "\<not> has_comment InChar (drop (i + 1) java_content)" by simp
      with s assms(1) InChar show ?thesis by blast
    qed
  next
    case InTextBlock
    with assms(1) have c: "in_text_block self" "\<not> in_string self" "\<not> in_char self"
      "\<not> in_single_line_comment self" "\<not> in_multi_line_comment self"
      by (simp_all add: in_region_def)
    from assms(3) InTextBlock
    have h: "\<not> has_comment InTextBlock (java_content ! i # drop (Suc i) java_content)"
      by (simp add: d)
    consider (esc) "java_content ! i = backslash"
      | (fin) "java_content ! i = dquote" "Suc (Suc i) < length java_content"
          "java_content ! Suc i = dquote" "java_content ! Suc (Suc i) = dquote"
      | (other) "java_content ! i \<noteq> backslash"
          "\<not> (java_content ! i = dquote \<and> Suc (Suc i) < length java_content
             \<and> java_content ! Suc i = dquote \<and> java_content ! Suc (Suc i) = dquote)"
      by blast
    then show ?thesis
    proof cases
      case esc
      with h have h1: "\<not> has_comment InTextBlock (drop (i + 2) java_content)" by simp
      show ?thesis
      proof (cases "i + 1 < length java_content")
        case True
        with esc c assms(2,4) have "i1 = i + 2" "self1 = self" by (auto simp: defs)
        with h1 assms(1) InTextBlock show ?thesis by blast
      next
        case False
        with esc c assms(2,4) have "i1 = i + 1" "self1 = self" by (auto simp: defs)
        moreover from False have "drop (i + 1) java_content = []" by simp
        ultimately show ?thesis using assms(1) InTextBlock by (intro exI [of _ InTextBlock]) simp
      qed
    next
      case fin
      then have sl: "slice java_content (Suc i) (i + 3) = [dquote, dquote]"
        using slice_tail2 [of i java_content] by (simp add: Suc_forms)
      from fin sl c assms(2,4) have s: "i1 = i + 3" "self1 = self\<lparr>in_text_block := False\<rparr>"
        by (auto simp: defs)
      from h fin have "\<not> has_comment InCode (drop (i + 3) java_content)"
        by (simp add: bridge Suc_forms)
      moreover from c s have "in_region InCode self1" by (simp add: in_region_def)
      ultimately show ?thesis using s by blast
    next
      case other
      have sl: "slice java_content (Suc i) (i + 3) = [dquote, dquote] \<Longrightarrow>
          Suc (Suc i) < length java_content \<Longrightarrow>
          java_content ! Suc i = dquote \<and> java_content ! Suc (Suc i) = dquote"
        using slice_tail2 [of i java_content] by (simp add: Suc_forms)
      from other sl c assms(2,4) have s: "i1 = i + 1" "self1 = self"
        by (auto simp: defs split: if_splits)
      from h other have "\<not> has_comment InTextBlock (drop (i + 1) java_content)"
        by (auto simp add: bridge split: if_splits)
      with s assms(1) InTextBlock show ?thesis by blast
    qed
  qed
qed


lemma in_region_not_commented: "in_region r self \<Longrightarrow> \<not> commented self"
  by (simp add: in_region_def commented_def)

lemma no_comment_copies:
  "in_region r self \<Longrightarrow> \<not> has_comment r (drop i java_content) \<Longrightarrow>
   \<exists>self' result'. remove_loop java_content i self result = Inr (self', result')
      \<and> concat result' = concat result @ drop i java_content"
proof (induction java_content i self result arbitrary: r rule: remove_loop.induct)
  case (1 java_content i self result)
  show ?case
  proof (cases "i < length java_content")
    case False
    then show ?thesis by simp
  next
    case True
    then obtain i1 self1 result1 where s: "step java_content i self result = Inr (i1, self1, result1)"
      using step_ok by (metis prod_cases3)
    from step_simulates [OF "1.prems"(1) True "1.prems"(2) s] obtain r1
      where r1: "in_region r1 self1" "\<not> has_comment r1 (drop i1 java_content)" by blast
    from "1.IH" [OF True s refl refl r1] obtain self' result'
      where r: "remove_loop java_content i1 self1 result1 = Inr (self', result')"
        and o: "concat result' = concat result1 @ drop i1 java_content"
      by blast
    from step_effect [OF s True] in_region_not_commented [OF "1.prems"(1)]
      in_region_not_commented [OF r1(1)]
    have le: "i \<le> i1" and cp: "concat result1 = concat result @ slice java_content i i1"
      by (auto simp: effect_def)
    from o cp slice_drop [OF le, of java_content]
    have "concat result' = concat result @ drop i java_content" by simp
    with r s True show ?thesis by simp
  qed
qed

subsection \<open>A whole literal\<close>


















subsection \<open>What is left open stays open to the end of the input\<close>

lemma contains_prefix: "take (length p) s = p \<Longrightarrow> contains s p"
  by (cases s) auto

lemma contains_suffix: "contains (drop k s) p \<Longrightarrow> contains s p"
proof (induction s arbitrary: k)
  case Nil
  then show ?case by simp
next
  case (Cons c s)
  show ?case
  proof (cases k)
    case 0
    with Cons.prems show ?thesis by simp
  next
    case (Suc m)
    with Cons.prems have "contains (drop m s) p" by simp
    then have "contains s p" by (rule Cons.IH)
    then show ?thesis by simp
  qed
qed

lemma contains_at:
  assumes "i \<le> j" and "take (length p) (drop j s) = p"
  shows "contains (drop i s) p"
proof -
  have "drop j s = drop (j - i) (drop i s)" using assms(1) by simp
  with assms(2) have "contains (drop (j - i) (drop i s)) p" by (simp add: contains_prefix)
  then show ?thesis by (rule contains_suffix)
qed

lemma in_rest: "i \<le> j \<Longrightarrow> j < length s \<Longrightarrow> s ! j \<in> set (drop i s)"
  by (metis Cons_nth_drop_Suc list.set_intros(1) set_drop_subset_set_drop subsetD)

lemma triple_at:
  assumes "j + 2 < length s" "s ! j = dquote" "slice s (j + 1) (j + 3) = [dquote, dquote]"
  shows "take (length [dquote, dquote, dquote]) (drop j s) = [dquote, dquote, dquote]"
proof -
  from assms(1) have "slice s (Suc j) (Suc (Suc (Suc j))) = [s ! Suc j, s ! Suc (Suc j)]"
    using slice2 [of "Suc j" s] by simp
  with assms(3) have "s ! Suc j = dquote" "s ! Suc (Suc j) = dquote" by (simp_all add: Suc_forms)
  with assms(1,2) drop3 [of j s] show ?thesis by simp
qed

lemma pair_at:
  assumes "j + 1 < length s" "s ! j = a" "s ! (j + 1) = b"
  shows "take (length [a, b]) (drop j s) = [a, b]"
  using assms drop2 [of j s] by simp

lemma unterminated_step:
  assumes "unterminated java_content i self" and "i \<le> j" and "j < length java_content"
  shows "\<exists>j' result'. step java_content j self result = Inr (j', self, result')"
proof -
  note r = in_rest [OF assms(2,3)]
  consider (tb) "in_text_block self"
    | (str) "\<not> in_text_block self" "in_string self"
    | (chr) "\<not> in_text_block self" "\<not> in_string self" "in_char self"
    | (lc) "\<not> in_text_block self" "\<not> in_string self" "\<not> in_char self" "in_single_line_comment self"
    | (bc) "\<not> in_text_block self" "\<not> in_string self" "\<not> in_char self" "\<not> in_single_line_comment self"
    by blast
  then show ?thesis
  proof cases
    case tb
    with assms(1) have n: "\<not> contains (drop i java_content) [dquote, dquote, dquote]"
      by (simp add: unterminated_def)
    have "\<not> (java_content ! j = dquote \<and> j + 2 < length java_content
              \<and> slice java_content (j + 1) (j + 3) = [dquote, dquote])"
      using n contains_at [OF assms(2) triple_at] by blast
    with tb assms(3) show ?thesis by (auto simp: step_def getitem_def)
  next
    case str
    with assms(1) have "\<not> in_char self" "Some (java_content ! j) \<noteq> string_delimiter self"
      using r by (auto simp: unterminated_def split: option.splits)
    with str assms(3) show ?thesis by (auto simp: step_def getitem_def)
  next
    case chr
    with assms(1) have "java_content ! j \<noteq> squote"
      using r by (auto simp: unterminated_def)
    with chr assms(3) show ?thesis by (auto simp: step_def getitem_def)
  next
    case lc
    with assms(1) have "\<not> in_multi_line_comment self" "java_content ! j \<noteq> newline"
      using r by (auto simp: unterminated_def)
    with lc assms(3) show ?thesis by (auto simp: step_def in_comment_def getitem_def)
  next
    case bc
    with assms(1) have m: "in_multi_line_comment self"
      and n: "\<not> contains (drop i java_content) [star, slash]"
      by (simp_all add: unterminated_def)
    have "\<not> (java_content ! j = star \<and> j + 1 < length java_content
              \<and> java_content ! (j + 1) = slash)"
      using n contains_at [OF assms(2) pair_at] by blast
    with bc m assms(3) show ?thesis by (auto simp: step_def in_comment_def getitem_def)
  qed
qed

lemma loop_keeps_state:
  "(\<forall>j r. i \<le> j \<and> j < length java_content \<longrightarrow>
       (\<exists>j' r'. step java_content j self r = Inr (j', self, r'))) \<Longrightarrow>
   \<exists>result'. remove_loop java_content i self result = Inr (self, result')"
proof (induction java_content i self result rule: remove_loop.induct)
  case (1 java_content i self result)
  show ?case
  proof (cases "i < length java_content")
    case False
    then show ?thesis by simp
  next
    case True
    with "1.prems" obtain i1 result1
      where s: "step java_content i self result = Inr (i1, self, result1)" by blast
    from step_advance [OF s] have "i \<le> i1" by simp
    with "1.prems" have "\<forall>j r. i1 \<le> j \<and> j < length java_content \<longrightarrow>
       (\<exists>j' r'. step java_content j self r = Inr (j', self, r'))" by auto
    from "1.IH" [OF True s refl refl this] s True show ?thesis by simp
  qed
qed

lemma unterminated_runs_to_end:
  "unterminated java_content i self \<Longrightarrow>
   \<exists>result'. remove_loop java_content i self result = Inr (self, result')"
  by (rule loop_keeps_state) (blast intro: unterminated_step)

section \<open>Properties\<close>

subsection \<open>A block comment over two lines\<close>

text \<open>
  C8. On the input \<^verbatim>\<open>a();\n/* line1\nline2 */\nb();\n\<close> a fresh scanner returns
  \<^verbatim>\<open>a();\n\n\nb();\n\<close>: the comment's delimiters and body are dropped and the two
  newlines inside it are kept. The scanner ends with every flag cleared.
\<close>

theorem block_comment_example:
  "remove_comments init ''a();\<newline>/* line1\<newline>line2 */\<newline>b();\<newline>''
     = Inr (init, ''a();\<newline>\<newline>\<newline>b();\<newline>'')"
  by code_simp

subsection \<open>Line count\<close>

text \<open>
  C1. For every input and every state of the scanner, \<^verbatim>\<open>remove_comments\<close> returns, and
  its output has as many line terminators as its input, those inside line comments and
  block comments included. The line terminator is the newline character U+000A, the one
  the source tests for.
\<close>

theorem line_count_preserved:
  "\<exists>self' out. remove_comments self java_content = Inr (self', out)
      \<and> newlines out = newlines java_content"
proof -
  obtain self' result' where r: "remove_loop java_content 0 self [] = Inr (self', result')"
    using remove_loop_ok by (metis surj_pair)
  from remove_loop_newlines [OF r] have "newlines (concat result') = newlines java_content"
    by (simp add: newlines_def)
  with r show ?thesis by (simp add: remove_comments_def)
qed

subsection \<open>Literal content\<close>



subsection \<open>Totality\<close>

text \<open>
  C3. \<^verbatim>\<open>remove_comments\<close> returns for every input, the empty one included, from every
  state of the scanner: no index is out of range. Every iteration inside the input
  succeeds, moves forward and stays within the input. At the end of the input the loop
  returns the state and the output as they are, whatever is still open. A literal, a
  comment or a text block that the rest of the input does not close is scanned to the
  end of the input in the same state, and the call returns in that state.
\<close>

theorem remove_comments_total:
  "(\<exists>self' out. remove_comments self java_content = Inr (self', out))
   \<and> (i < length java_content \<longrightarrow>
        (\<exists>i' self' result'. step java_content i self result = Inr (i', self', result')
            \<and> i < i' \<and> i' \<le> length java_content))
   \<and> remove_loop java_content (length java_content) self result = Inr (self, result)
   \<and> remove_comments self [] = Inr (self, [])
   \<and> (unterminated java_content i self \<longrightarrow>
        (\<exists>result'. remove_loop java_content i self result = Inr (self, result')))"
proof -
  obtain self' result' where "remove_loop java_content 0 self [] = Inr (self', result')"
    using remove_loop_ok by (metis surj_pair)
  then have a: "\<exists>self' out. remove_comments self java_content = Inr (self', out)"
    by (simp add: remove_comments_def)
  have b: "\<exists>i' self' result'. step java_content i self result = Inr (i', self', result')
            \<and> i < i' \<and> i' \<le> length java_content" if "i < length java_content"
  proof -
    from that obtain i' self' result'
      where s: "step java_content i self result = Inr (i', self', result')"
      using step_ok by (metis prod_cases3)
    from step_effect [OF s that] have "i < i' \<and> i' \<le> length java_content"
      by (simp add: effect_def)
    with s show ?thesis by blast
  qed
  have c: "remove_loop java_content (length java_content) self result = Inr (self, result)"
    by simp
  have d: "remove_comments self [] = Inr (self, [])" by (simp add: remove_comments_def)
  have e: "\<exists>result'. remove_loop java_content i self result = Inr (self, result')"
    if "unterminated java_content i self"
    using that by (rule unterminated_runs_to_end)
  from a b c d e show ?thesis by blast
qed

theorem remove_comments_total_witness:
  "(3::nat) < length ''a/* b *''
   \<and> unterminated ''a/* b *'' 3 (init\<lparr>in_multi_line_comment := True\<rparr>)
   \<and> (\<exists>i' self' result'. step ''a/* b *'' 3 (init\<lparr>in_multi_line_comment := True\<rparr>) [''a'']
          = Inr (i', self', result') \<and> 3 < i' \<and> i' \<le> length ''a/* b *'')
   \<and> (\<exists>result'. remove_loop ''a/* b *'' 3 (init\<lparr>in_multi_line_comment := True\<rparr>) [''a'']
          = Inr (init\<lparr>in_multi_line_comment := True\<rparr>, result'))
   \<and> remove_comments init ''a/* b *'' = Inr (init\<lparr>in_multi_line_comment := True\<rparr>, ''a'')"
proof -
  have l: "(3::nat) < length ''a/* b *''" by simp
  have u: "unterminated ''a/* b *'' 3 (init\<lparr>in_multi_line_comment := True\<rparr>)" by code_simp
  have r: "remove_comments init ''a/* b *'' = Inr (init\<lparr>in_multi_line_comment := True\<rparr>, ''a'')"
    by code_simp
  note t = remove_comments_total [of "init\<lparr>in_multi_line_comment := True\<rparr>" "''a/* b *''" 3 "[''a'']"]
  from t l
  have a: "\<exists>i' self' result'. step ''a/* b *'' 3 (init\<lparr>in_multi_line_comment := True\<rparr>) [''a'']
          = Inr (i', self', result') \<and> 3 < i' \<and> i' \<le> length ''a/* b *''"
    by blast
  from t u
  have b: "\<exists>result'. remove_loop ''a/* b *'' 3 (init\<lparr>in_multi_line_comment := True\<rparr>) [''a'']
          = Inr (init\<lparr>in_multi_line_comment := True\<rparr>, result')"
    by blast
  from l u a b r show ?thesis by blast
qed

subsection \<open>Escapes\<close>

text \<open>
  C5. Inside a string literal, a character literal or a text block, a backslash that has
  a character after it is copied together with that character, the scanner moves past
  both and its state does not change: the second character closes nothing. A fresh
  scanner returns \<^verbatim>\<open>String s = "a \" b // c";\<close> unchanged.
\<close>

theorem escape_pair_copied:
  "((in_string self \<or> in_char self \<or> in_text_block self)
      \<and> i + 1 < length java_content \<and> java_content ! i = backslash \<longrightarrow>
      step java_content i self result
        = Inr (i + 2, self, result @ [[backslash], [java_content ! (i + 1)]]))
   \<and> remove_comments init escaped_quote_example = Inr (init, escaped_quote_example)"
proof -
  have "remove_comments init escaped_quote_example = Inr (init, escaped_quote_example)"
    by code_simp
  then show ?thesis using step_escape by blast
qed

theorem escape_pair_copied_witness:
  "(in_string in_string_state \<or> in_char in_string_state \<or> in_text_block in_string_state)
   \<and> 1 + 1 < length [dquote, backslash, dquote, dquote]
   \<and> [dquote, backslash, dquote, dquote] ! 1 = backslash
   \<and> step [dquote, backslash, dquote, dquote] 1 in_string_state [[dquote]]
        = Inr (3, in_string_state, [[dquote], [backslash], [dquote]])"
  using escape_pair_copied [of in_string_state 1 "[dquote, backslash, dquote, dquote]" "[[dquote]]"]
  by (simp add: in_string_state_def)

subsection \<open>A backslash at the end of the input\<close>

text \<open>
  C10. Inside a string literal, a character literal or a text block, a backslash that is
  the last character of the input is copied alone, and the loop then returns: the state
  is unchanged and the output is extended by that backslash.
\<close>

theorem final_backslash_copied:
  assumes "in_string self \<or> in_char self \<or> in_text_block self"
    and "i + 1 = length java_content" and "java_content ! i = backslash"
  shows "step java_content i self result = Inr (i + 1, self, result @ [[backslash]])
         \<and> remove_loop java_content i self result = Inr (self, result @ [[backslash]])"
  using step_final_backslash [OF assms] loop_final_backslash [OF assms] by simp

theorem final_backslash_copied_witness:
  "(in_string in_string_state \<or> in_char in_string_state \<or> in_text_block in_string_state)
   \<and> 1 + 1 = length [dquote, backslash]
   \<and> [dquote, backslash] ! 1 = backslash
   \<and> step [dquote, backslash] 1 in_string_state [[dquote]]
        = Inr (2, in_string_state, [[dquote], [backslash]])
   \<and> remove_loop [dquote, backslash] 1 in_string_state [[dquote]]
        = Inr (in_string_state, [[dquote], [backslash]])
   \<and> remove_comments init [dquote, backslash] = Inr (in_string_state, [dquote, backslash])"
proof -
  have h: "in_string in_string_state" by (simp add: in_string_state_def)
  have e: "remove_comments init [dquote, backslash] = Inr (in_string_state, [dquote, backslash])"
    by code_simp
  from final_backslash_copied [of in_string_state 1 "[dquote, backslash]" "[[dquote]]"] h e
  show ?thesis by simp
qed

subsection \<open>State between calls\<close>

text \<open>
  \<^verbatim>\<open>remove_comments\<close> does not reset the scanner. A first call on one double quote leaves
  the scanner inside a string literal; a second call on \<^verbatim>\<open>//a\<close> from that state copies
  the three characters, whereas a fresh scanner returns the empty string.
\<close>

theorem state_leak_counterexample:
  "remove_comments init [dquote] = Inr (in_string_state, [dquote])
   \<and> remove_comments in_string_state ''//a'' = Inr (in_string_state, ''//a'')
   \<and> remove_comments init ''//a'' = Inr (init\<lparr>in_single_line_comment := True\<rparr>, '''')"
  by code_simp

text \<open>
  C4, as the code has it. The reset is made by \<^verbatim>\<open>process_file\<close>, before it calls
  \<^verbatim>\<open>remove_comments\<close>: whatever state an instance is in, \<^verbatim>\<open>process_file\<close> scans its
  input from the fresh state, so processing \<open>x\<close> and then \<open>y\<close> on one instance gives
  for \<open>y\<close> what a fresh instance gives.
\<close>

theorem process_file_resets:
  "process_file self y = remove_comments init y
   \<and> (process_file self x = Inr (self', out) \<longrightarrow> process_file self' y = process_file init y)"
  by (simp add: process_file_def reset_is_init)

theorem process_file_resets_witness:
  "process_file init [dquote] = Inr (in_string_state, [dquote])
   \<and> process_file in_string_state ''//a'' = process_file init ''//a''
   \<and> process_file in_string_state ''//a'' = Inr (init\<lparr>in_single_line_comment := True\<rparr>, '''')"
proof -
  have a: "process_file init [dquote] = Inr (in_string_state, [dquote])" by code_simp
  have b: "process_file init ''//a'' = Inr (init\<lparr>in_single_line_comment := True\<rparr>, '''')"
    by code_simp
  from process_file_resets [where self = init and x = "[dquote]" and self' = in_string_state
      and out = "[dquote]" and y = "''//a''"] a
  have "process_file in_string_state ''//a'' = process_file init ''//a''" by blast
  with a b show ?thesis by simp
qed

subsection \<open>Two slashes in code\<close>

text \<open>
  The URL test looks at the last ten elements of \<open>result\<close>, not at the last ten
  characters of the output. On \<^verbatim>\<open>http:""" """//x\<close> the scanner is in code mode at the two
  slashes after eight iterations; the last ten characters of the output,
  \<^verbatim>\<open>tp:""" """\<close>, contain none of the four schemes, and yet the slash is copied and no
  comment starts: the whole input is returned unchanged.
\<close>

theorem url_window_counterexample:
  "steps 8 scheme_text_block_example 0 init [] = Inr (12, init, scheme_text_block_pieces)
   \<and> scheme_text_block_example ! 12 = slash \<and> scheme_text_block_example ! 13 = slash
   \<and> last_characters 10 (concat scheme_text_block_pieces)
        = ''tp:'' @ [dquote, dquote, dquote] @ '' '' @ [dquote, dquote, dquote]
   \<and> \<not> url_in_last_10_characters (concat scheme_text_block_pieces)
   \<and> step scheme_text_block_example 12 init scheme_text_block_pieces
         = Inr (13, init, scheme_text_block_pieces @ [[slash]])
   \<and> remove_comments init scheme_text_block_example = Inr (init, scheme_text_block_example)"
  by code_simp

text \<open>
  C6, as the code has it. In code mode, at a slash followed by a slash, the scanner
  drops both and enters a line comment if and only if the last ten elements appended to
  \<open>result\<close> (all of them when there are fewer), joined and put in lower case, contain
  none of \<^verbatim>\<open>http:\<close>, \<^verbatim>\<open>https:\<close>, \<^verbatim>\<open>ftp:\<close>, \<^verbatim>\<open>file:\<close>; otherwise it copies the
  first slash, moves one character and stays in code mode. An element is one character,
  except the three quotes that open a text block (one element) and the two quotes that
  end its closing (one element). When every element is one character, the elements
  looked at are the last ten characters of the output.
\<close>

theorem double_slash_rule:
  "(code_mode self \<and> i + 1 < length java_content
      \<and> java_content ! i = slash \<and> java_content ! (i + 1) = slash \<longrightarrow>
      step java_content i self result =
        (if is_likely_url result then Inr (i + 1, self, result @ [[slash]])
         else Inr (i + 2, self\<lparr>in_single_line_comment := True\<rparr>, result)))
   \<and> ((\<forall>piece \<in> set result. length piece = 1) \<longrightarrow>
        is_likely_url result = url_in_last_10_characters (concat result))"
  using step_double_slash window_of_characters by blast

theorem double_slash_rule_witness:
  "code_mode init \<and> 5 + 1 < length ''http://a''
   \<and> ''http://a'' ! 5 = slash \<and> ''http://a'' ! (5 + 1) = slash
   \<and> is_likely_url [''h'', ''t'', ''t'', ''p'', '':'']
   \<and> url_in_last_10_characters ''http:''
   \<and> step ''http://a'' 5 init [''h'', ''t'', ''t'', ''p'', '':'']
        = Inr (6, init, [''h'', ''t'', ''t'', ''p'', '':'', ''/''])
   \<and> code_mode init \<and> 1 + 1 < length ''a//b''
   \<and> ''a//b'' ! 1 = slash \<and> ''a//b'' ! (1 + 1) = slash
   \<and> \<not> is_likely_url [''a'']
   \<and> step ''a//b'' 1 init [''a''] = Inr (3, init\<lparr>in_single_line_comment := True\<rparr>, [''a''])"
proof -
  have c: "code_mode init" by (simp add: code_mode_def init_def)
  have u: "is_likely_url [''h'', ''t'', ''t'', ''p'', '':'']" by code_simp
  have n: "\<not> is_likely_url [''a'']" by code_simp
  have p: "\<forall>piece \<in> set [''h'', ''t'', ''t'', ''p'', '':'']. length piece = 1" by simp
  from double_slash_rule [of init 5 "''http://a''" "[''h'', ''t'', ''t'', ''p'', '':'']"] c u p
  have a: "step ''http://a'' 5 init [''h'', ''t'', ''t'', ''p'', '':'']
        = Inr (6, init, [''h'', ''t'', ''t'', ''p'', '':'', ''/''])"
    and w: "url_in_last_10_characters ''http:''"
    by simp_all
  from double_slash_rule [of init 1 "''a//b''" "[''a'']"] c n
  have b: "step ''a//b'' 1 init [''a''] = Inr (3, init\<lparr>in_single_line_comment := True\<rparr>, [''a''])"
    by simp
  from a b c u n p w show ?thesis by simp
qed

subsection \<open>Three double quotes in code\<close>

text \<open>
  Three double quotes with nothing after them do not start a text block: the scanner
  copies the first quote and enters a string literal, and the call ends inside a string
  literal, not inside a text block.
\<close>

theorem text_block_end_of_input_counterexample:
  "length triple_quote_example = 3
   \<and> step triple_quote_example 0 init [] = Inr (1, in_string_state, [[dquote]])
   \<and> remove_comments init triple_quote_example = Inr (in_string_state, triple_quote_example)
   \<and> \<not> in_text_block in_string_state"
  by code_simp

text \<open>
  C7, as the code has it. In code mode, three double quotes start a text block (the three
  quotes copied as one element, the scanner moved by three) if and only if a character
  follows them and it is a whitespace character, line terminators included; three
  quotes at the very end of the input do not. Otherwise the first quote alone is copied
  and opens a string literal, and the scanner moves by one.
\<close>

theorem triple_quote_rule:
  "code_mode self \<and> i + 2 < length java_content
     \<and> java_content ! i = dquote \<and> java_content ! (i + 1) = dquote
     \<and> java_content ! (i + 2) = dquote \<longrightarrow>
   step java_content i self result =
     (if i + 3 < length java_content \<and> isspace (java_content ! (i + 3)) then
        Inr (i + 3, self\<lparr>in_text_block := True\<rparr>, result @ [[dquote, dquote, dquote]])
      else Inr (i + 1, self\<lparr>in_string := True, string_delimiter := Some dquote\<rparr>,
                result @ [[dquote]]))"
  using step_triple_quote by blast

theorem triple_quote_rule_witness:
  "code_mode init \<and> 0 + 2 < length [dquote, dquote, dquote, newline]
   \<and> step [dquote, dquote, dquote, newline] 0 init []
        = Inr (3, init\<lparr>in_text_block := True\<rparr>, [[dquote, dquote, dquote]])
   \<and> 0 + 2 < length [dquote, dquote, dquote, CHR ''x'']
   \<and> step [dquote, dquote, dquote, CHR ''x''] 0 init [] = Inr (1, in_string_state, [[dquote]])"
proof -
  have c: "code_mode init" by (simp add: code_mode_def init_def)
  from triple_quote_rule [of init 0 "[dquote, dquote, dquote, newline]" "[]"] c
  have a: "step [dquote, dquote, dquote, newline] 0 init []
        = Inr (3, init\<lparr>in_text_block := True\<rparr>, [[dquote, dquote, dquote]])"
    by (simp add: isspace_def)
  from triple_quote_rule [of init 0 "[dquote, dquote, dquote, CHR ''x'']" "[]"] c
  have b: "step [dquote, dquote, dquote, CHR ''x''] 0 init [] = Inr (1, in_string_state, [[dquote]])"
    by (simp add: isspace_def in_string_state_def)
  from a b c show ?thesis by simp
qed

subsection \<open>Idempotence\<close>

text \<open>
  C9. For every input that contains no comments, that is, in which neither \<^verbatim>\<open>//\<close> nor
  \<^verbatim>\<open>/*\<close> occurs outside string literals, character literals and text blocks, a fresh
  scanner returns the input itself, so applying a fresh scanner to the output returns the
  output again: transform (transform x) = transform x.
\<close>

theorem idempotent_without_comments:
  assumes "no_comments x"
  shows "\<exists>self' y. remove_comments init x = Inr (self', y)
            \<and> remove_comments init y = Inr (self', y) \<and> y = x"
proof -
  have "in_region InCode init" by (simp add: in_region_def init_def)
  moreover from assms have "\<not> has_comment InCode (drop 0 x)" by (simp add: no_comments_def)
  ultimately obtain self' result' where "remove_loop x 0 init [] = Inr (self', result')"
    and "concat result' = x" using no_comment_copies [of InCode init 0 x "[]"] by auto
  then have "remove_comments init x = Inr (self', x)" by (simp add: remove_comments_def)
  then show ?thesis by simp
qed

theorem idempotent_without_comments_witness:
  "no_comments literal_with_delimiters_example
   \<and> (\<exists>self' y. remove_comments init literal_with_delimiters_example = Inr (self', y)
          \<and> remove_comments init y = Inr (self', y) \<and> y = literal_with_delimiters_example)
   \<and> remove_comments init literal_with_delimiters_example
        = Inr (init, literal_with_delimiters_example)"
proof -
  have h: "no_comments literal_with_delimiters_example" by code_simp
  have e: "remove_comments init literal_with_delimiters_example
        = Inr (init, literal_with_delimiters_example)" by code_simp
  from h e idempotent_without_comments [OF h] show ?thesis by blast
qed

end
